theory Spec2Isabelle
  imports Complex_Main "HOL-Library.Product_Lexorder"
begin

section \<open>The spherical-harmonics comparison script\<close>

text \<open>
  The repository's helper \<^verbatim>\<open>test_helpers/scipy_comparison.py\<close> has one function,
  \<^verbatim>\<open>main\<close>. It builds two lists of angles, prints a CSV header, and then prints one
  CSV line for every degree \<open>n\<close>, order \<open>m\<close>, polar angle \<open>phi\<close> and azimuthal angle
  \<open>theta\<close>, calling \<^verbatim>\<open>scipy.special.sph_harm\<close> for the value.

  The embedding below follows the function statement by statement. What the script takes
  from outside (the special function and the decimal rendering of floats) is a record of
  functions handed to \<open>main\<close>; what it computes itself (the grids, the loops, the
  rendering of integers and the format template) is defined here.
\<close>

subsection \<open>Exceptions\<close>

text \<open>
  An exception ends the run. \<open>ZeroDivisionError\<close> is what Python's float division
  raises on a zero divisor, \<open>FormatError\<close> stands for the errors of \<^verbatim>\<open>str.format\<close>
  (a replacement field without an argument, an unbalanced brace), and \<open>EvaluationError\<close>
  for whatever the delegated special function raises.
\<close>

datatype error = ZeroDivisionError | FormatError | EvaluationError

subsection \<open>Python floats: binary64 with round-to-nearest-even\<close>

text \<open>
  A finite Python float is an IEEE 754 binary64 number, here the rational it denotes.
  \<open>round_binary64 q\<close> is the binary64 number nearest to the exact result \<open>q\<close>, ties to
  the even significand: the unit in the last place is \<open>2 ^ (e - 52)\<close> for a result in
  \<open>[2 ^ e, 2 ^ (e + 1))\<close>, and \<open>2 ^ - 1074\<close> below the normal range. The model covers
  results of magnitude below \<open>2 ^ 1024\<close> (above, Python gives an infinity); the two zeros
  are not told apart.
\<close>

type_synonym float = rat

definition pow2 :: "int \<Rightarrow> rat" where
  "pow2 e = (if 0 \<le> e then 2 ^ nat e else 1 / 2 ^ nat (- e))"

function bit_length :: "int \<Rightarrow> int" where
  "bit_length a = (if a \<le> 0 then 0 else 1 + bit_length (a div 2))"
  by pat_completeness auto
termination
  by (relation "measure nat") auto

declare bit_length.simps [simp del]

text \<open>\<open>ilog2 q\<close> is \<open>\<lfloor>log\<^sub>2 q\<rfloor>\<close> for a positive rational \<open>q\<close>.\<close>

definition ilog2 :: "rat \<Rightarrow> int" where
  "ilog2 q = (if 1 \<le> q then bit_length \<lfloor>q\<rfloor> - 1 else - bit_length (\<lceil>1 / q\<rceil> - 1))"

definition round_half_even :: "rat \<Rightarrow> int" where
  "round_half_even x = (let f = \<lfloor>x\<rfloor>; r = x - of_int f
     in if r < 1 / 2 then f else if 1 / 2 < r then f + 1 else if even f then f else f + 1)"

definition round_binary64 :: "rat \<Rightarrow> float" where
  "round_binary64 q = (if q = 0 then 0 else
     (let e = max (ilog2 \<bar>q\<bar>) (- 1022); ulp = pow2 (e - 52)
      in sgn q * of_int (round_half_even (\<bar>q\<bar> / ulp)) * ulp))"

text \<open>\<^verbatim>\<open>math.pi\<close> is the binary64 number \<^verbatim>\<open>0x1.921fb54442d18p+1\<close>.\<close>

definition pi_float :: float where
  "pi_float = 884279719003555 / 281474976710656"

text \<open>
  An \<^verbatim>\<open>int\<close> operand of a float operation is converted to a float first, to the
  nearest one (Python raises \<^verbatim>\<open>OverflowError\<close> for an integer of magnitude \<open>2 ^ 1024\<close> or
  more, which is outside the model as well); the float operations round the exact
  result, and division checks its divisor.
\<close>

definition float_of_int :: "int \<Rightarrow> float" where
  "float_of_int i = round_binary64 (of_int i)"

definition float_mul :: "float \<Rightarrow> float \<Rightarrow> float" where
  "float_mul a b = round_binary64 (a * b)"

definition float_div :: "float \<Rightarrow> float \<Rightarrow> error + float" where
  "float_div a b = (if b = 0 then Inl ZeroDivisionError else Inr (round_binary64 (a / b)))"

subsection \<open>Ranges and list comprehensions\<close>

text \<open>
  \<^verbatim>\<open>range(start, stop)\<close>, which is also \<^verbatim>\<open>range(start, stop, 1)\<close>: the integers from
  \<open>start\<close> up to, not including, \<open>stop\<close>.
\<close>

definition range_int :: "int \<Rightarrow> int \<Rightarrow> int list" where
  "range_int start stop = [start..stop - 1]"

text \<open>
  \<^verbatim>\<open>[f(x) for x in xs]\<close>: the element expression is evaluated for each \<open>x\<close> in turn, and
  the first exception ends the comprehension.
\<close>

fun list_comp :: "('a \<Rightarrow> error + 'b) \<Rightarrow> 'a list \<Rightarrow> error + 'b list" where
  "list_comp f [] = Inr []"
| "list_comp f (x # xs) =
     (case f x of
        Inl e \<Rightarrow> Inl e
      | Inr y \<Rightarrow> (case list_comp f xs of Inl e \<Rightarrow> Inl e | Inr ys \<Rightarrow> Inr (y # ys)))"

subsection \<open>The angular grids\<close>

definition num_phis :: int where
  "num_phis = 10"

definition num_thetas :: int where
  "num_thetas = 2 * num_phis"

definition n_max :: int where
  "n_max = 10"

text \<open>\<^verbatim>\<open>thetas = [2 * pi / num_thetas * x for x in list(range(0, num_thetas, 1))]\<close>\<close>

definition thetas :: "error + float list" where
  "thetas = list_comp
     (\<lambda>x. case float_div (float_mul (float_of_int 2) pi_float) (float_of_int num_thetas) of
            Inl e \<Rightarrow> Inl e
          | Inr c \<Rightarrow> Inr (float_mul c (float_of_int x)))
     (range_int 0 num_thetas)"

text \<open>\<^verbatim>\<open>phis = [pi / num_phis * x for x in list(range(0, num_phis, 1))]\<close>\<close>

definition phis :: "error + float list" where
  "phis = list_comp
     (\<lambda>x. case float_div pi_float (float_of_int num_phis) of
            Inl e \<Rightarrow> Inl e
          | Inr c \<Rightarrow> Inr (float_mul c (float_of_int x)))
     (range_int 0 num_phis)"

subsection \<open>Rendering\<close>

text \<open>\<^verbatim>\<open>str\<close> of an \<^verbatim>\<open>int\<close>: decimal digits, with a minus sign for a negative number.\<close>

definition digit_char :: "nat \<Rightarrow> char" where
  "digit_char d = char_of (48 + d)"

fun str_nat :: "nat \<Rightarrow> string" where
  "str_nat n = (if n < 10 then [digit_char n] else str_nat (n div 10) @ [digit_char (n mod 10)])"

declare str_nat.simps [simp del]

definition str_int :: "int \<Rightarrow> string" where
  "str_int i = (if i < 0 then CHR ''-'' # str_nat (nat (- i)) else str_nat (nat i))"

text \<open>
  \<^verbatim>\<open>template.format(*args)\<close>, with the arguments already rendered, for the templates
  the script needs: literal text, the escapes \<^verbatim>\<open>{{\<close> and \<^verbatim>\<open>}}\<close>, and automatically
  numbered replacement fields \<^verbatim>\<open>{}\<close>. Each \<^verbatim>\<open>{}\<close> takes the next argument, surplus
  arguments are ignored, and a field without an argument or a single brace is an error.
  Fields with a name, a number, a conversion or a format specification are outside the
  model, which answers them with \<open>FormatError\<close> too.
\<close>

fun py_format :: "string \<Rightarrow> string list \<Rightarrow> error + string" where
  "py_format [] args = Inr []"
| "py_format (c # cs) args =
     (if c = CHR ''{'' then
        (case cs of
           [] \<Rightarrow> Inl FormatError
         | d # ds \<Rightarrow>
             if d = CHR ''}'' then
               (case args of
                  [] \<Rightarrow> Inl FormatError
                | a # as \<Rightarrow> (case py_format ds as of Inl e \<Rightarrow> Inl e | Inr s \<Rightarrow> Inr (a @ s)))
             else if d = CHR ''{'' then
               (case py_format ds args of Inl e \<Rightarrow> Inl e | Inr s \<Rightarrow> Inr (CHR ''{'' # s))
             else Inl FormatError)
      else if c = CHR ''}'' then
        (case cs of
           [] \<Rightarrow> Inl FormatError
         | d # ds \<Rightarrow>
             if d = CHR ''}'' then
               (case py_format ds args of Inl e \<Rightarrow> Inl e | Inr s \<Rightarrow> Inr (CHR ''}'' # s))
             else Inl FormatError)
      else (case py_format cs args of Inl e \<Rightarrow> Inl e | Inr s \<Rightarrow> Inr (c # s)))"

subsection \<open>What the script takes from outside\<close>

text \<open>
  The value of \<^verbatim>\<open>sph_harm(m, n, theta, phi)\<close> is a complex number whose parts are
  floating-point scalars of the library, of a type \<open>'r\<close> left open. The call may raise.
  \<open>str_float\<close> is the text that an empty replacement field gives for a Python float,
  \<open>str_float64\<close> the same for a part of the result.
\<close>

record 'r complex128 =
  real_part :: 'r
  imag_part :: 'r

record 'r library =
  sph_harm :: "int \<Rightarrow> int \<Rightarrow> float \<Rightarrow> float \<Rightarrow> error + 'r complex128"
  str_float :: "float \<Rightarrow> string"
  str_float64 :: "'r \<Rightarrow> string"

subsection \<open>Standard output and the loops\<close>

text \<open>
  The state of a run is the list of lines written so far. A statement maps it to the new
  list and to the exception it raised, if any; a \<^verbatim>\<open>for\<close> loop runs its body for each
  element in order and stops at the first exception.
\<close>

type_synonym stdout = "string list"

definition print :: "string \<Rightarrow> stdout \<Rightarrow> stdout" where
  "print line out = out @ [line]"

fun for_each :: "'a list \<Rightarrow> ('a \<Rightarrow> stdout \<Rightarrow> stdout \<times> error option) \<Rightarrow> stdout
    \<Rightarrow> stdout \<times> error option" where
  "for_each [] body out = (out, None)"
| "for_each (x # xs) body out =
     (case body x out of
        (out', None) \<Rightarrow> for_each xs body out'
      | (out', Some e) \<Rightarrow> (out', Some e))"

text \<open>The body of the innermost loop: the call, then the formatted line.\<close>

definition emit_row :: "'r library \<Rightarrow> int \<Rightarrow> int \<Rightarrow> float \<Rightarrow> float \<Rightarrow> stdout
    \<Rightarrow> stdout \<times> error option" where
  "emit_row L n m phi theta out =
     (case sph_harm L m n theta phi of
        Inl e \<Rightarrow> (out, Some e)
      | Inr res \<Rightarrow>
          (case py_format ''{},{},{},{},{},{}''
                  [str_int n, str_int m, str_float L theta, str_float L phi,
                   str_float64 L (real_part res), str_float64 L (imag_part res)] of
             Inl e \<Rightarrow> (out, Some e)
           | Inr line \<Rightarrow> (print line out, None)))"

text \<open>
  \<open>main\<close> returns the lines written to standard output and the exception that ended the
  run, \<open>None\<close> for a run that completed.
\<close>

definition main :: "'r library \<Rightarrow> stdout \<times> error option" where
  "main L =
     (case thetas of
        Inl e \<Rightarrow> ([], Some e)
      | Inr ths \<Rightarrow>
          (case phis of
             Inl e \<Rightarrow> ([], Some e)
           | Inr phs \<Rightarrow>
               for_each (range_int 0 (n_max + 1)) (\<lambda>n.
                 for_each (range_int (- n) (n + 1)) (\<lambda>m.
                   for_each phs (\<lambda>phi.
                     for_each ths (\<lambda>theta.
                       emit_row L n m phi theta))))
                 (print ''n,m,theta,phi,sph_re,sph_im'' [])))"

subsection \<open>Names for what the run binds\<close>

text \<open>
  The lists that \<^verbatim>\<open>thetas\<close> and \<^verbatim>\<open>phis\<close> are bound to when their comprehensions
  complete (the empty list stands in when one raises, which the first lemmas on the
  grids rule out).
\<close>

definition theta_values :: "float list" where
  "theta_values = (case thetas of Inl e \<Rightarrow> [] | Inr ths \<Rightarrow> ths)"

definition phi_values :: "float list" where
  "phi_values = (case phis of Inl e \<Rightarrow> [] | Inr phs \<Rightarrow> phs)"

text \<open>
  The common step of both grids, \<^verbatim>\<open>pi / 10\<close>. The significand of \<^verbatim>\<open>math.pi\<close> is a
  multiple of 5, so the quotient is a binary64 number itself and no operation of the
  grid construction rounds.
\<close>

definition step :: float where
  "step = 176855943800711 / 562949953421312"

subsection \<open>Reading the output\<close>

text \<open>
  The definitions from here on are not part of the script: they are the vocabulary in
  which its output is described.

  A CSV line is its fields joined by commas, and is read back by splitting at every
  comma, as \<^verbatim>\<open>','.join\<close> and \<^verbatim>\<open>str.split(',')\<close> do.
\<close>

fun join_commas :: "string list \<Rightarrow> string" where
  "join_commas [] = []"
| "join_commas [f] = f"
| "join_commas (f # g # fs) = f @ CHR '','' # join_commas (g # fs)"

fun split_commas :: "string \<Rightarrow> string list" where
  "split_commas [] = [[]]"
| "split_commas (c # cs) =
     (if c = CHR '','' then [] # split_commas cs
      else (case split_commas cs of [] \<Rightarrow> [[c]] | f # fs \<Rightarrow> (c # f) # fs))"

text \<open>
  The degrees and orders of the iteration, and the libraries that return a value for
  every call on them at angles of the grid.
\<close>

definition valid :: "int \<Rightarrow> int \<Rightarrow> bool" where
  "valid n m \<longleftrightarrow> 0 \<le> n \<and> n \<le> n_max \<and> - n \<le> m \<and> m \<le> n"

definition succeeds :: "'r library \<Rightarrow> bool" where
  "succeeds L \<longleftrightarrow>
     (\<forall>n m theta phi. valid n m \<and> theta \<in> set theta_values \<and> phi \<in> set phi_values
        \<longrightarrow> \<not> isl (sph_harm L m n theta phi))"

text \<open>
  The six fields of the line for \<open>(n, m, theta, phi)\<close> and the line itself, the lines of
  one \<open>(n, m)\<close> in order, and all data lines in order.
\<close>

definition fields :: "'r library \<Rightarrow> int \<Rightarrow> int \<Rightarrow> float \<Rightarrow> float \<Rightarrow> string list" where
  "fields L n m theta phi =
     (let res = projr (sph_harm L m n theta phi)
      in [str_int n, str_int m, str_float L theta, str_float L phi,
          str_float64 L (real_part res), str_float64 L (imag_part res)])"

definition csv_line :: "'r library \<Rightarrow> int \<Rightarrow> int \<Rightarrow> float \<Rightarrow> float \<Rightarrow> string" where
  "csv_line L n m theta phi = join_commas (fields L n m theta phi)"

definition block :: "'r library \<Rightarrow> int \<Rightarrow> int \<Rightarrow> string list" where
  "block L n m =
     concat (map (\<lambda>phi. map (\<lambda>theta. csv_line L n m theta phi) theta_values) phi_values)"

definition data_rows :: "'r library \<Rightarrow> string list" where
  "data_rows L = concat (map (\<lambda>n. concat (map (\<lambda>m. block L n m) [- n..n])) [0..n_max])"

text \<open>
  The iteration as a list of index tuples \<open>(n, m, j, k)\<close>, with \<open>j\<close> and \<open>k\<close> the
  positions of \<open>phi\<close> and \<open>theta\<close> in their grids: \<open>pairs_of xs f\<close> lists, for each
  \<open>x\<close> of \<open>xs\<close> in turn, the pairs of \<open>x\<close> with the elements of \<open>f x\<close>.
\<close>

definition pairs_of :: "'a list \<Rightarrow> ('a \<Rightarrow> 'b list) \<Rightarrow> ('a \<times> 'b) list" where
  "pairs_of xs f = concat (map (\<lambda>x. map (Pair x) (f x)) xs)"

definition index_space :: "(int \<times> int \<times> nat \<times> nat) list" where
  "index_space =
     pairs_of [0..n_max] (\<lambda>n.
       pairs_of [- n..n] (\<lambda>m.
         pairs_of [0..<length phi_values] (\<lambda>j. [0..<length theta_values])))"

definition nm_pairs :: "(int \<times> int) list" where
  "nm_pairs = pairs_of [0..n_max] (\<lambda>n. [- n..n])"

definition row_at :: "'r library \<Rightarrow> int \<times> int \<times> nat \<times> nat \<Rightarrow> string" where
  "row_at L = (\<lambda>(n, m, j, k). csv_line L n m (theta_values ! k) (phi_values ! j))"

text \<open>The lexicographic order of index tuples, each key ascending.\<close>

definition lex_less :: "int \<times> int \<times> nat \<times> nat \<Rightarrow> int \<times> int \<times> nat \<times> nat \<Rightarrow> bool" where
  "lex_less a b =
     (case a of (n, m, j, k) \<Rightarrow> case b of (n', m', j', k') \<Rightarrow>
        n < n' \<or> n = n' \<and> (m < m' \<or> m = m' \<and> (j < j' \<or> j = j' \<and> k < k')))"

text \<open>
  A library to try the theorems on. Its function tells its four arguments apart, so a
  call with the arguments in another order gives another line.
\<close>

definition sample_library :: "rat library" where
  "sample_library =
     \<lparr>sph_harm = (\<lambda>m n theta phi.
        Inr \<lparr>real_part = of_int (100 * n + m) + theta, imag_part = phi\<rparr>),
      str_float = (\<lambda>x. str_int \<lfloor>x * 1000\<rfloor>),
      str_float64 = (\<lambda>x. str_int \<lfloor>x * 1000\<rfloor>)\<rparr>"

text \<open>
  Two libraries agree when they give the same results on the calls of the iteration and
  the same text for the angles of the grids and for every part of a result. A library
  is comma-free when its renderings of floats contain no comma.
\<close>

definition agree :: "'r library \<Rightarrow> 'r library \<Rightarrow> bool" where
  "agree L1 L2 \<longleftrightarrow>
     (\<forall>n m theta phi. valid n m \<and> theta \<in> set theta_values \<and> phi \<in> set phi_values
        \<longrightarrow> sph_harm L1 m n theta phi = sph_harm L2 m n theta phi)
     \<and> (\<forall>x. x \<in> set theta_values \<or> x \<in> set phi_values \<longrightarrow> str_float L1 x = str_float L2 x)
     \<and> str_float64 L1 = str_float64 L2"

definition comma_free :: "'r library \<Rightarrow> bool" where
  "comma_free L \<longleftrightarrow>
     (\<forall>x. CHR '','' \<notin> set (str_float L x)) \<and> (\<forall>r. CHR '','' \<notin> set (str_float64 L r))"

text \<open>
  The sample library with every call outside the iteration's degrees and orders turned
  into an exception.
\<close>

definition restricted_sample :: "rat library" where
  "restricted_sample =
     sample_library\<lparr>sph_harm := \<lambda>m n theta phi.
       if valid n m then sph_harm sample_library m n theta phi else Inl EvaluationError\<rparr>"

subsection \<open>The special function, from the specification\<close>

text \<open>
  The script imports \<^verbatim>\<open>scipy.special.sph_harm\<close>, which the repository does not contain.
  The specification gives it as
  \<open>Y n m (phi, theta) = sqrt ((2 n + 1) / (4 pi) * (n - m)! / (n + m)!) * P n m (cos phi)
  * e ^ (i m theta)\<close> with \<open>P n m\<close> the associated Legendre function. The angles and the
  value are real and complex numbers in this part, not floats.
\<close>

text \<open>
  Modelled from the spec: the associated Legendre function \<open>P n m\<close> of the formula, for
  orders \<open>0 \<le> m\<close>. It is the \<open>m\<close>-th derivative of the Legendre polynomial of degree \<open>n\<close>
  times \<open>(- 1) ^ m * (1 - x\<^sup>2) ^ (m / 2)\<close>; the phase \<open>(- 1) ^ m\<close> is the convention of the
  library, which the specification leaves open.
\<close>

definition legendre :: "nat \<Rightarrow> nat \<Rightarrow> real \<Rightarrow> real" where
  "legendre n m x =
     (if n < m then 0
      else (- 1) ^ m * sqrt (1 - x\<^sup>2) ^ m
        * (\<Sum>k\<le>(n - m) div 2.
             (- 1) ^ k * real (n choose k) * real ((2 * n - 2 * k) choose n)
               * (fact (n - 2 * k) / fact (n - 2 * k - m)) * x ^ (n - 2 * k - m))
        / 2 ^ n)"

text \<open>
  Modelled from the spec: the associated Legendre function for every degree and order,
  zero outside \<open>0 \<le> n\<close>, \<open>\<bar>m\<bar> \<le> n\<close>, and for a negative order \<open>- m\<close> the function of
  order \<open>m\<close> times \<open>(- 1) ^ m * (n - m)! / (n + m)!\<close>.
\<close>

definition assoc_legendre :: "int \<Rightarrow> int \<Rightarrow> real \<Rightarrow> real" where
  "assoc_legendre n m x =
     (if n < 0 \<or> n < \<bar>m\<bar> then 0
      else if 0 \<le> m then legendre (nat n) (nat m) x
      else (- 1) ^ nat (- m) * (fact (nat (n + m)) / fact (nat (n - m)))
        * legendre (nat n) (nat (- m)) x)"

text \<open>
  Modelled from the spec: \<^verbatim>\<open>sph_harm(m, n, theta, phi)\<close> by the formula of section 4.1,
  order \<open>m\<close> first, then degree \<open>n\<close>, azimuthal angle \<open>theta\<close> and polar angle \<open>phi\<close>.
\<close>

definition sph_harm_spec :: "int \<Rightarrow> int \<Rightarrow> real \<Rightarrow> real \<Rightarrow> complex" where
  "sph_harm_spec m n theta phi =
     of_real (sqrt ((2 * of_int n + 1) / (4 * pi) * (fact (nat (n - m)) / fact (nat (n + m))))
        * assoc_legendre n m (cos phi))
     * cis (of_int m * theta)"

text \<open>
  Modelled from the spec: the library whose special function is the function of the
  specification, evaluated exactly, with renderings \<open>sf\<close> and \<open>sr\<close> of one's choice.
\<close>

definition scipy_spec :: "(float \<Rightarrow> string) \<Rightarrow> (real \<Rightarrow> string) \<Rightarrow> real library" where
  "scipy_spec sf sr =
     \<lparr>sph_harm = (\<lambda>m n theta phi.
        Inr \<lparr>real_part = Re (sph_harm_spec m n (of_rat theta) (of_rat phi)),
             imag_part = Im (sph_harm_spec m n (of_rat theta) (of_rat phi))\<rparr>),
      str_float = sf,
      str_float64 = sr\<rparr>"

section \<open>Properties\<close>

subsection \<open>Powers of two, bit length, binary logarithm\<close>

lemma pow2_powi: "pow2 e = 2 powi e"
  by (simp add: pow2_def power_int_def inverse_eq_divide power_one_over)

lemma pow2_pos: "0 < pow2 e"
  by (simp add: pow2_powi)

lemma pow2_add: "pow2 (a + b) = pow2 a * pow2 b"
  by (simp add: pow2_powi power_int_add)

lemma pow2_mono: "a \<le> b \<Longrightarrow> pow2 a \<le> pow2 b"
  by (simp add: pow2_powi power_int_increasing)

lemma pow2_strict_mono: "a < b \<Longrightarrow> pow2 a < pow2 b"
  by (simp add: pow2_powi power_int_strict_increasing)

lemma pow2_nat: "0 \<le> e \<Longrightarrow> pow2 e = of_int (2 ^ nat e)"
  by (simp add: pow2_def)

lemma bit_length_nonneg: "0 \<le> bit_length a"
  by (induction a rule: bit_length.induct) (subst bit_length.simps, auto)

lemma bit_length_pos: "0 < a \<Longrightarrow> 0 < bit_length a"
  using bit_length_nonneg [of "a div 2"] by (subst bit_length.simps) simp

lemma bit_length_bounds:
  "0 < a \<Longrightarrow> 2 ^ nat (bit_length a - 1) \<le> a \<and> a < 2 ^ nat (bit_length a)"
proof (induction a rule: bit_length.induct)
  case (1 a)
  show ?case
  proof (cases "a = 1")
    case True
    then show ?thesis by (simp add: bit_length.simps)
  next
    case False
    with 1 have pos: "0 < a div 2" by simp
    with 1 have IH: "2 ^ nat (bit_length (a div 2) - 1) \<le> a div 2"
        "a div 2 < 2 ^ nat (bit_length (a div 2))"
      by simp_all
    have bl: "bit_length a = 1 + bit_length (a div 2)"
      using 1(2) by (subst bit_length.simps) simp
    have p: "0 < bit_length (a div 2)" using pos by (rule bit_length_pos)
    have e1: "nat (bit_length a - 1) = Suc (nat (bit_length (a div 2) - 1))"
      using p bl by simp
    have e2: "nat (bit_length a) = Suc (nat (bit_length (a div 2)))"
      using p bl by simp
    show ?thesis
      using IH unfolding e1 e2 by simp linarith
  qed
qed

lemma ilog2_ge1:
  assumes "1 \<le> q"
  shows "pow2 (ilog2 q) \<le> q \<and> q < pow2 (ilog2 q + 1)"
proof -
  let ?a = "\<lfloor>q\<rfloor>"
  have a: "0 < ?a" using assms by simp
  have b: "2 ^ nat (bit_length ?a - 1) \<le> ?a" "?a < 2 ^ nat (bit_length ?a)"
    using bit_length_bounds [OF a] by simp_all
  have p: "0 < bit_length ?a" using a by (rule bit_length_pos)
  have il: "ilog2 q = bit_length ?a - 1" using assms by (simp add: ilog2_def)
  have "pow2 (ilog2 q) = of_int (2 ^ nat (bit_length ?a - 1))"
    using p il by (simp add: pow2_nat)
  also have "\<dots> \<le> of_int ?a" using b(1) by (simp only: of_int_le_iff)
  also have "\<dots> \<le> q" by simp
  finally have lo: "pow2 (ilog2 q) \<le> q" .
  have "?a + 1 \<le> 2 ^ nat (bit_length ?a)" using b(2) by simp
  then have "(of_int (?a + 1) :: rat) \<le> of_int (2 ^ nat (bit_length ?a))"
    by (simp only: of_int_le_iff)
  moreover have "q < of_int (?a + 1)" by linarith
  moreover have "pow2 (ilog2 q + 1) = of_int (2 ^ nat (bit_length ?a))"
    using p il by (simp add: pow2_nat)
  ultimately have "q < pow2 (ilog2 q + 1)" by simp
  with lo show ?thesis by simp
qed

lemma pow2_neg: "0 \<le> e \<Longrightarrow> pow2 (- e) = 1 / of_int (2 ^ nat e)"
  by (simp add: pow2_def)

lemma ilog2_lt1:
  assumes "0 < q" "q < 1"
  shows "pow2 (ilog2 q) \<le> q \<and> q < pow2 (ilog2 q + 1)"
proof -
  let ?c = "\<lceil>1 / q\<rceil>"
  let ?a = "?c - 1"
  have y: "1 < 1 / q" using assms by simp
  have c2: "2 \<le> ?c" using y by (simp add: le_ceiling_iff)
  have a: "0 < ?a" using c2 by simp
  have b: "2 ^ nat (bit_length ?a - 1) \<le> ?a" "?a < 2 ^ nat (bit_length ?a)"
    using bit_length_bounds [OF a] by simp_all
  have p: "0 < bit_length ?a" using a by (rule bit_length_pos)
  have il: "ilog2 q = - bit_length ?a" using assms by (simp add: ilog2_def)
  have "?c \<le> 2 ^ nat (bit_length ?a)" using b(2) by simp
  then have "(of_int ?c :: rat) \<le> of_int (2 ^ nat (bit_length ?a))"
    by (simp only: of_int_le_iff)
  moreover have "1 / q \<le> of_int ?c" by simp
  ultimately have "1 / q \<le> of_int (2 ^ nat (bit_length ?a))" by linarith
  then have "1 / of_int (2 ^ nat (bit_length ?a)) \<le> q"
    using assms(1) by (simp add: field_simps)
  moreover have "pow2 (ilog2 q) = 1 / of_int (2 ^ nat (bit_length ?a))"
    using p il pow2_neg [of "bit_length ?a"] by simp
  ultimately have lo: "pow2 (ilog2 q) \<le> q" by simp
  have "(of_int (2 ^ nat (bit_length ?a - 1)) :: rat) \<le> of_int ?a"
    using b(1) by (simp only: of_int_le_iff)
  moreover have "of_int ?a < 1 / q" by simp linarith
  ultimately have "of_int (2 ^ nat (bit_length ?a - 1)) < 1 / q" by linarith
  then have "q < 1 / of_int (2 ^ nat (bit_length ?a - 1))"
    using assms(1) by (simp add: field_simps)
  moreover have "pow2 (ilog2 q + 1) = 1 / of_int (2 ^ nat (bit_length ?a - 1))"
    using p il pow2_neg [of "bit_length ?a - 1"] by simp
  ultimately have "q < pow2 (ilog2 q + 1)" by simp
  with lo show ?thesis by simp
qed

lemma ilog2_bounds:
  "0 < q \<Longrightarrow> pow2 (ilog2 q) \<le> q \<and> q < pow2 (ilog2 q + 1)"
  using ilog2_ge1 [of q] ilog2_lt1 [of q] by (cases "1 \<le> q") auto

lemma ilog2_unique:
  assumes "0 < q" "pow2 e \<le> q" "q < pow2 (e + 1)"
  shows "ilog2 q = e"
proof -
  have b: "pow2 (ilog2 q) \<le> q" "q < pow2 (ilog2 q + 1)"
    using ilog2_bounds [OF assms(1)] by simp_all
  have "pow2 e < pow2 (ilog2 q + 1)" using assms(2) b(2) by linarith
  then have 1: "e < ilog2 q + 1"
    using pow2_mono [of "ilog2 q + 1" e] by (cases "e < ilog2 q + 1") auto
  have "pow2 (ilog2 q) < pow2 (e + 1)" using assms(3) b(1) by linarith
  then have 2: "ilog2 q < e + 1"
    using pow2_mono [of "e + 1" "ilog2 q"] by (cases "ilog2 q < e + 1") auto
  from 1 2 show ?thesis by simp
qed

subsection \<open>Rounding\<close>

lemma round_half_even_near:
  assumes "\<bar>x - of_int n\<bar> < 1 / 2"
  shows "round_half_even x = n"
proof -
  have lo: "of_int n - 1 / 2 < x" and hi: "x < of_int n + 1 / 2"
    using assms by linarith+
  have "\<lfloor>x\<rfloor> = n \<or> \<lfloor>x\<rfloor> = n - 1"
    using lo hi by (auto simp: floor_eq_iff)
  then show ?thesis
  proof
    assume f: "\<lfloor>x\<rfloor> = n"
    have "x - of_int n < 1 / 2" using hi by linarith
    then show ?thesis by (simp add: round_half_even_def Let_def f)
  next
    assume f: "\<lfloor>x\<rfloor> = n - 1"
    have "1 / 2 < x - (of_int n - 1)" using lo by linarith
    then show ?thesis by (simp add: round_half_even_def Let_def f)
  qed
qed

lemma round_half_even_of_int: "round_half_even (of_int n) = n"
  by (rule round_half_even_near) simp

lemma round_half_even_error: "\<bar>of_int (round_half_even x) - x\<bar> \<le> 1 / 2"
proof -
  have "of_int \<lfloor>x\<rfloor> \<le> x" "x < of_int \<lfloor>x\<rfloor> + 1" by linarith+
  then show ?thesis
    by (auto simp: round_half_even_def Let_def abs_le_iff)
qed

lemma round_binary64_near:
  assumes "0 < q" "pow2 e \<le> q" "q < pow2 (e + 1)" "- 1022 \<le> e"
    and "\<bar>q / pow2 (e - 52) - of_int n\<bar> < 1 / 2"
  shows "round_binary64 q = of_int n * pow2 (e - 52)"
proof -
  have il: "ilog2 q = e" using assms(1-3) by (rule ilog2_unique)
  have m: "max e (- 1022) = e" using assms(4) by simp
  have r: "round_half_even (q / pow2 (e - 52)) = n"
    using assms(5) by (rule round_half_even_near)
  show ?thesis
    using assms(1) by (simp add: round_binary64_def Let_def il m r)
qed

lemma round_binary64_exact:
  assumes "\<bar>m\<bar> < 2 ^ 53" "- 1074 \<le> k"
  shows "round_binary64 (of_int m * pow2 k) = of_int m * pow2 k"
proof (cases "m = 0")
  case True
  then show ?thesis by (simp add: round_binary64_def)
next
  case False
  let ?q = "of_int m * pow2 k :: rat"
  have q0: "?q \<noteq> 0" using False pow2_pos [of k] by simp
  have aq: "\<bar>?q\<bar> = of_int \<bar>m\<bar> * pow2 k"
    using pow2_pos [of k] by (simp add: abs_mult)
  have qpos: "0 < \<bar>?q\<bar>" using q0 by simp
  define e where "e = max (ilog2 \<bar>?q\<bar>) (- 1022)"
  have "(of_int \<bar>m\<bar> :: rat) < of_int (2 ^ 53)"
    using assms(1) by (simp only: of_int_less_iff)
  then have "\<bar>?q\<bar> < of_int (2 ^ 53) * pow2 k"
    unfolding aq using pow2_pos [of k] by (simp only: mult_less_cancel_right_pos)
  also have "\<dots> = pow2 (k + 53)"
    using pow2_add [of k 53] by (simp add: pow2_def)
  finally have "pow2 (ilog2 \<bar>?q\<bar>) < pow2 (k + 53)"
    using ilog2_bounds [OF qpos] by linarith
  then have "ilog2 \<bar>?q\<bar> < k + 53"
    using pow2_mono [of "k + 53" "ilog2 \<bar>?q\<bar>"] by (cases "ilog2 \<bar>?q\<bar> < k + 53") auto
  then have d: "0 \<le> k - (e - 52)" using assms(2) by (simp add: e_def)
  have split: "pow2 k = pow2 (k - (e - 52)) * pow2 (e - 52)"
    using pow2_add [of "k - (e - 52)" "e - 52"] by simp
  have "\<bar>?q\<bar> / pow2 (e - 52) = of_int \<bar>m\<bar> * pow2 (k - (e - 52))"
    unfolding aq using pow2_pos [of "e - 52"] by (subst split) simp
  also have "\<dots> = of_int (\<bar>m\<bar> * 2 ^ nat (k - (e - 52)))"
    using d by (simp add: pow2_nat)
  finally have r: "round_half_even (\<bar>?q\<bar> / pow2 (e - 52)) = \<bar>m\<bar> * 2 ^ nat (k - (e - 52))"
    by (simp only: round_half_even_of_int)
  have "round_binary64 ?q = sgn ?q * of_int (\<bar>m\<bar> * 2 ^ nat (k - (e - 52))) * pow2 (e - 52)"
    using q0 r unfolding round_binary64_def Let_def e_def by simp
  also have "of_int (\<bar>m\<bar> * 2 ^ nat (k - (e - 52))) = of_int \<bar>m\<bar> * pow2 (k - (e - 52))"
    using d by (simp add: pow2_nat)
  also have "sgn ?q * (of_int \<bar>m\<bar> * pow2 (k - (e - 52))) * pow2 (e - 52) = sgn ?q * \<bar>?q\<bar>"
    unfolding aq by (subst (3) split) simp
  also have "\<dots> = ?q" by (simp only: sgn_mult_abs)
  finally show ?thesis .
qed

lemma round_binary64_error:
  assumes "q \<noteq> 0"
  shows "\<bar>round_binary64 q - q\<bar> \<le> pow2 (max (ilog2 \<bar>q\<bar>) (- 1022) - 53)"
proof -
  define u where "u = pow2 (max (ilog2 \<bar>q\<bar>) (- 1022) - 52)"
  have u: "0 < u" by (simp add: u_def pow2_pos)
  define n where "n = round_half_even (\<bar>q\<bar> / u)"
  have rb: "round_binary64 q = sgn q * (of_int n * u)"
    using assms by (simp add: round_binary64_def Let_def u_def n_def)
  have "\<bar>of_int n - \<bar>q\<bar> / u\<bar> \<le> 1 / 2"
    unfolding n_def by (rule round_half_even_error)
  then have "\<bar>of_int n - \<bar>q\<bar> / u\<bar> * u \<le> 1 / 2 * u"
    using u by (simp only: mult_le_cancel_right_pos)
  moreover have "\<bar>of_int n - \<bar>q\<bar> / u\<bar> * u = \<bar>of_int n * u - \<bar>q\<bar>\<bar>"
  proof -
    have "\<bar>of_int n - \<bar>q\<bar> / u\<bar> * u = \<bar>(of_int n - \<bar>q\<bar> / u) * u\<bar>"
      using u by (simp add: abs_mult)
    also have "(of_int n - \<bar>q\<bar> / u) * u = of_int n * u - \<bar>q\<bar>"
      using u by (simp add: field_simps)
    finally show ?thesis .
  qed
  ultimately have e: "\<bar>of_int n * u - \<bar>q\<bar>\<bar> \<le> u / 2" by simp
  have "round_binary64 q - q = sgn q * (of_int n * u - \<bar>q\<bar>)"
    unfolding rb by (simp add: algebra_simps abs_mult_sgn)
  then have "\<bar>round_binary64 q - q\<bar> = \<bar>of_int n * u - \<bar>q\<bar>\<bar>"
    using assms by (simp add: abs_mult abs_sgn_eq)
  also have "\<dots> \<le> u / 2" by (rule e)
  also have "u / 2 = pow2 (max (ilog2 \<bar>q\<bar>) (- 1022) - 53)"
    using pow2_add [of "max (ilog2 \<bar>q\<bar>) (- 1022) - 53" 1] by (simp add: u_def pow2_def)
  finally show ?thesis .
qed

text \<open>An operation that does round: \<^verbatim>\<open>1 / 10\<close> gives the float \<^verbatim>\<open>0x1.999999999999ap-4\<close>.\<close>

lemma round_tenth: "round_binary64 (1 / 10) = 3602879701896397 / 36028797018963968"
proof -
  have "round_binary64 (1 / 10) = of_int 7205759403792794 * pow2 (- 4 - 52)"
    by (rule round_binary64_near) (simp_all add: pow2_def)
  then show ?thesis by (simp add: pow2_def)
qed

subsection \<open>The grids hold exact multiples of the step\<close>

lemma float_of_int_exact: "\<bar>i\<bar> < 2 ^ 53 \<Longrightarrow> float_of_int i = of_int i"
  using round_binary64_exact [of i 0] by (simp add: float_of_int_def pow2_def)

lemma step_pi: "step = pi_float / 10"
  by (simp add: step_def pi_float_def)

lemma two_pi: "float_mul (float_of_int 2) pi_float = 2 * pi_float"
proof -
  have "round_binary64 (of_int 884279719003555 * pow2 (- 47)) = of_int 884279719003555 * pow2 (- 47)"
    by (rule round_binary64_exact) simp_all
  moreover have "float_of_int 2 = 2"
    using float_of_int_exact [of 2] by simp
  ultimately show ?thesis
    by (simp add: float_mul_def pi_float_def pow2_def)
qed

lemma round_step: "round_binary64 step = step"
proof -
  have "round_binary64 (of_int 176855943800711 * pow2 (- 49)) = of_int 176855943800711 * pow2 (- 49)"
    by (rule round_binary64_exact) simp_all
  then show ?thesis by (simp add: step_def pow2_def)
qed

lemma thetas_step:
  "float_div (float_mul (float_of_int 2) pi_float) (float_of_int num_thetas) = Inr step"
proof -
  have "float_of_int num_thetas = 20"
    using float_of_int_exact [of 20] by (simp add: num_thetas_def num_phis_def)
  then show ?thesis
    by (simp add: two_pi float_div_def round_step step_pi [symmetric])
qed

lemma phis_step: "float_div pi_float (float_of_int num_phis) = Inr step"
proof -
  have "float_of_int num_phis = 10"
    using float_of_int_exact [of 10] by (simp add: num_phis_def)
  then show ?thesis
    by (simp add: float_div_def round_step step_pi [symmetric])
qed

lemma step_multiple:
  assumes "0 \<le> x" "x < 50"
  shows "float_mul step (float_of_int x) = step * of_int x"
proof -
  have x53: "\<bar>x\<bar> < 2 ^ 53" using assms by simp
  have eq: "step * of_int x = of_int (176855943800711 * x) * pow2 (- 49)"
    by (simp add: step_def pow2_def)
  have "\<bar>176855943800711 * x\<bar> < 2 ^ 53" using assms by simp
  then have "round_binary64 (of_int (176855943800711 * x) * pow2 (- 49))
      = of_int (176855943800711 * x) * pow2 (- 49)"
    by (rule round_binary64_exact) simp
  then show ?thesis
    unfolding float_mul_def float_of_int_exact [OF x53] eq .
qed

lemma list_comp_map:
  "(\<And>x. x \<in> set xs \<Longrightarrow> f x = Inr (g x)) \<Longrightarrow> list_comp f xs = Inr (map g xs)"
  by (induction xs) simp_all

lemma thetas_eq: "thetas = Inr (map (\<lambda>x. step * of_int x) [0..19])"
proof -
  have r: "range_int 0 num_thetas = [0..19]"
    by (simp add: range_int_def num_thetas_def num_phis_def)
  show ?thesis
    unfolding thetas_def r
  proof (rule list_comp_map)
    fix x :: int
    assume "x \<in> set [0..19]"
    then have "0 \<le> x" "x < 50" by simp_all
    then show "(case float_div (float_mul (float_of_int 2) pi_float) (float_of_int num_thetas) of
        Inl e \<Rightarrow> Inl e | Inr c \<Rightarrow> Inr (float_mul c (float_of_int x))) = Inr (step * of_int x)"
      by (simp add: thetas_step step_multiple)
  qed
qed

lemma phis_eq: "phis = Inr (map (\<lambda>x. step * of_int x) [0..9])"
proof -
  have r: "range_int 0 num_phis = [0..9]"
    by (simp add: range_int_def num_phis_def)
  show ?thesis
    unfolding phis_def r
  proof (rule list_comp_map)
    fix x :: int
    assume "x \<in> set [0..9]"
    then have "0 \<le> x" "x < 50" by simp_all
    then show "(case float_div pi_float (float_of_int num_phis) of
        Inl e \<Rightarrow> Inl e | Inr c \<Rightarrow> Inr (float_mul c (float_of_int x))) = Inr (step * of_int x)"
      by (simp add: phis_step step_multiple)
  qed
qed

lemma theta_values_eq: "theta_values = map (\<lambda>x. step * of_int x) [0..19]"
  by (simp add: theta_values_def thetas_eq)

lemma phi_values_eq: "phi_values = map (\<lambda>x. step * of_int x) [0..9]"
  by (simp add: phi_values_def phis_eq)

lemma length_theta_values: "length theta_values = 20"
  by (simp add: theta_values_eq)

lemma length_phi_values: "length phi_values = 10"
  by (simp add: phi_values_eq)

lemma nth_theta_values: "k < 20 \<Longrightarrow> theta_values ! k = step * of_nat k"
  by (simp add: theta_values_eq)

lemma nth_phi_values: "j < 10 \<Longrightarrow> phi_values ! j = step * of_nat j"
  by (simp add: phi_values_eq)

lemma sorted_theta_values: "sorted_wrt (<) theta_values"
proof -
  have s: "0 < step" by (simp add: step_def)
  have "sorted_wrt (<) (map (\<lambda>x. step * of_int x) [0..19])"
    unfolding sorted_wrt_map
    by (rule sorted_wrt_mono_rel [of _ "(<)"]) (use s in \<open>simp_all add: sorted_wrt_upto\<close>)
  then show ?thesis by (simp only: theta_values_eq)
qed

lemma sorted_phi_values: "sorted_wrt (<) phi_values"
proof -
  have s: "0 < step" by (simp add: step_def)
  have "sorted_wrt (<) (map (\<lambda>x. step * of_int x) [0..9])"
    unfolding sorted_wrt_map
    by (rule sorted_wrt_mono_rel [of _ "(<)"]) (use s in \<open>simp_all add: sorted_wrt_upto\<close>)
  then show ?thesis by (simp only: phi_values_eq)
qed

lemma grid_values_small:
  "x \<in> set theta_values \<union> set phi_values \<Longrightarrow> 0 \<le> x \<and> x < 8"
  by (auto simp: theta_values_eq phi_values_eq step_def)

subsection \<open>The float \<open>pi\<close> and the number \<open>pi\<close>\<close>

text \<open>
  Machin's formula and the alternating series of the arc tangent bracket the number
  \<open>pi\<close> to seventeen decimals; \<^verbatim>\<open>math.pi\<close> lies less than \<open>1.25 * 10 ^ - 16\<close> below it.
\<close>

lemma arctan_bracket:
  fixes x :: real
  assumes "0 < x" "x \<le> 1"
  shows "(\<Sum>i<2 * n. (- 1) ^ i * (1 / real (i * 2 + 1) * x ^ (i * 2 + 1))) \<le> arctan x"
    and "arctan x \<le> (\<Sum>i<2 * n + 1. (- 1) ^ i * (1 / real (i * 2 + 1) * x ^ (i * 2 + 1)))"
proof -
  have ax: "\<bar>x\<bar> \<le> 1" using assms by simp
  have a0: "0 < 1 / real (0 * 2 + 1) * x ^ (0 * 2 + 1)" using assms by simp
  from summable_Leibniz(2) [OF zeroseq_arctan_series [OF ax] monoseq_arctan_series [OF ax]] a0
  have "(\<Sum>i. (- 1) ^ i * (1 / real (i * 2 + 1) * x ^ (i * 2 + 1)))
      \<in> {\<Sum>i<2 * n. (- 1) ^ i * (1 / real (i * 2 + 1) * x ^ (i * 2 + 1)) ..
         \<Sum>i<2 * n + 1. (- 1) ^ i * (1 / real (i * 2 + 1) * x ^ (i * 2 + 1))}"
    by blast
  then show "(\<Sum>i<2 * n. (- 1) ^ i * (1 / real (i * 2 + 1) * x ^ (i * 2 + 1))) \<le> arctan x"
    and "arctan x \<le> (\<Sum>i<2 * n + 1. (- 1) ^ i * (1 / real (i * 2 + 1) * x ^ (i * 2 + 1)))"
    by (simp_all add: arctan_series [OF ax])
qed

lemma pi_bounds: "314159265358979323 / 10 ^ 17 \<le> pi" "pi \<le> 314159265358979324 / 10 ^ 17"
proof -
  have x5: "0 < (1 / 5 :: real)" "(1 / 5 :: real) \<le> 1" by simp_all
  have x239: "0 < (1 / 239 :: real)" "(1 / 239 :: real) \<le> 1" by simp_all
  have "(\<Sum>i<2 * 6. (- 1) ^ i * (1 / real (i * 2 + 1) * (1 / 5) ^ (i * 2 + 1))) \<le> arctan (1 / 5)"
    by (rule arctan_bracket(1) [OF x5])
  then have al: "157490522761940959144868 / 797842276096343994140625 \<le> arctan (1 / 5)"
    by (simp add: lessThan_nat_numeral lessThan_Suc power_divide)
  have "arctan (1 / 5) \<le> (\<Sum>i<2 * 6 + 1. (- 1) ^ i * (1 / real (i * 2 + 1) * (1 / 5) ^ (i * 2 + 1)))"
    by (rule arctan_bracket(2) [OF x5])
  then have au: "arctan (1 / 5) \<le> 98431576726213099532470361 / 498651422560214996337890625"
    by (simp add: lessThan_nat_numeral lessThan_Suc power_divide)
  have "(\<Sum>i<2 * 2. (- 1) ^ i * (1 / real (i * 2 + 1) * (1 / 239) ^ (i * 2 + 1))) \<le> arctan (1 / 239)"
    by (rule arctan_bracket(1) [OF x239])
  then have bl: "19569249503065996 / 4677077924340368295 \<le> arctan (1 / 239)"
    by (simp add: lessThan_nat_numeral lessThan_Suc power_divide)
  have "arctan (1 / 239) \<le> (\<Sum>i<2 * 2 + 1. (- 1) ^ i * (1 / real (i * 2 + 1) * (1 / 239) ^ (i * 2 + 1)))"
    by (rule arctan_bracket(2) [OF x239])
  then have bu: "arctan (1 / 239) \<le> 3353445302593898272583 / 801478104348738532136085"
    by (simp add: lessThan_nat_numeral lessThan_Suc power_divide)
  have m: "pi = 16 * arctan (1 / 5) - 4 * arctan (1 / 239)"
    using machin by simp
  show "314159265358979323 / 10 ^ 17 \<le> pi"
    using al bu unfolding m by simp
  show "pi \<le> 314159265358979324 / 10 ^ 17"
    using au bl unfolding m by simp
qed

lemma pi_float_near: "0 < pi - of_rat pi_float" "pi - of_rat pi_float < 125 / 10 ^ 18"
  using pi_bounds by (simp_all add: pi_float_def of_rat_divide)

lemma grid_value_near:
  assumes "k < 20"
  shows "\<bar>of_rat (step * of_nat k) - pi * real k / 10\<bar> \<le> 3 / 10 ^ 16"
proof -
  define d where "d = pi - of_rat pi_float"
  have d: "0 < d" "d < 125 / 10 ^ 18"
    using pi_float_near by (simp_all add: d_def)
  have "real k \<le> 19" using assms by simp
  then have "d * real k \<le> d * 19"
    using d(1) by (intro mult_left_mono) simp_all
  moreover have "0 \<le> d * real k" using d(1) by simp
  moreover have "of_rat (step * of_nat k) - pi * real k / 10 = - (d * real k) / 10"
    by (simp add: step_pi d_def of_rat_mult of_rat_divide algebra_simps)
  ultimately show ?thesis using d(2) by simp
qed

lemma grid_step_near: "\<bar>of_rat step - pi / 10\<bar> \<le> 2 / 10 ^ 17"
  using pi_float_near by (simp add: step_pi of_rat_divide abs_le_iff)

subsection \<open>The theta grid\<close>

text \<open>
  Claim C4. The theta grid has \<open>2 * num_phis = 20\<close> values, the value at index \<open>k\<close> is
  \<open>2 * pi * k / (2 * num_phis)\<close>, it is strictly increasing, it starts at 0, and the
  difference of two consecutive values is \<open>pi / 10\<close>. With the float \<^verbatim>\<open>math.pi\<close> of the
  script for \<open>pi\<close> the equalities are exact: the grid values are binary64 numbers that
  equal these rational expressions. With the number \<open>pi\<close> they hold within
  \<open>3 * 10 ^ - 16\<close> for the values and \<open>2 * 10 ^ - 17\<close> for the step.
\<close>

theorem thetas_grid:
  "thetas = Inr theta_values
   \<and> int (length theta_values) = 2 * num_phis
   \<and> length theta_values = 20
   \<and> (\<forall>k<20. theta_values ! k = 2 * pi_float * of_nat k / (2 * of_int num_phis))
   \<and> (\<forall>k<20. \<bar>of_rat (theta_values ! k) - 2 * pi * real k / (2 * real_of_int num_phis)\<bar>
          \<le> 3 / 10 ^ 16)
   \<and> sorted_wrt (<) theta_values
   \<and> theta_values ! 0 = 0
   \<and> (\<forall>k<19. theta_values ! (k + 1) - theta_values ! k = pi_float / 10)
   \<and> \<bar>of_rat (pi_float / 10) - pi / 10\<bar> \<le> 2 / 10 ^ 17"
proof (intro conjI)
  show "thetas = Inr theta_values"
    by (simp add: thetas_eq theta_values_eq)
  show "int (length theta_values) = 2 * num_phis"
    by (simp add: length_theta_values num_phis_def)
  show "length theta_values = 20"
    by (rule length_theta_values)
  show "\<forall>k<20. theta_values ! k = 2 * pi_float * of_nat k / (2 * of_int num_phis)"
    by (simp add: nth_theta_values step_pi num_phis_def)
  show "\<forall>k<20. \<bar>of_rat (theta_values ! k) - 2 * pi * real k / (2 * real_of_int num_phis)\<bar>
      \<le> 3 / 10 ^ 16"
    using grid_value_near by (simp add: nth_theta_values num_phis_def)
  show "sorted_wrt (<) theta_values"
    by (rule sorted_theta_values)
  show "theta_values ! 0 = 0"
    by (simp add: nth_theta_values)
  show "\<forall>k<19. theta_values ! (k + 1) - theta_values ! k = pi_float / 10"
    by (simp add: nth_theta_values step_pi algebra_simps)
  show "\<bar>of_rat (pi_float / 10) - pi / 10\<bar> \<le> 2 / 10 ^ 17"
    using grid_step_near by (simp only: step_pi)
qed

theorem thetas_grid_witness:
  "(3::nat) < 20 \<and> theta_values ! 3 = 2 * pi_float * of_nat 3 / (2 * of_int num_phis)
   \<and> \<bar>of_rat (theta_values ! 3) - 2 * pi * real 3 / (2 * real_of_int num_phis)\<bar> \<le> 3 / 10 ^ 16
   \<and> theta_values ! (3 + 1) - theta_values ! 3 = pi_float / 10"
proof -
  from thetas_grid
  have a: "\<forall>k<20. theta_values ! k = 2 * pi_float * of_nat k / (2 * of_int num_phis)"
    and b: "\<forall>k<19. theta_values ! (k + 1) - theta_values ! k = pi_float / 10"
    and c: "\<forall>k<20. \<bar>of_rat (theta_values ! k) - 2 * pi * real k / (2 * real_of_int num_phis)\<bar>
      \<le> 3 / 10 ^ 16"
    by blast+
  have "(3::nat) < 20" "(3::nat) < 19" by simp_all
  then show ?thesis
    using a [rule_format, of 3] b [rule_format, of 3] c [rule_format, of 3] by blast
qed

subsection \<open>The phi grid\<close>

text \<open>
  Claim C5. The phi grid has \<open>num_phis = 10\<close> values, the value at index \<open>j\<close> is
  \<open>pi * j / num_phis\<close>, it is strictly increasing, it starts at 0, and the difference of
  two consecutive values is \<open>pi / 10\<close>: exactly with the float \<^verbatim>\<open>math.pi\<close> for \<open>pi\<close>, and
  within \<open>3 * 10 ^ - 16\<close> for the values and \<open>2 * 10 ^ - 17\<close> for the step with the number
  \<open>pi\<close>.
\<close>

theorem phis_grid:
  "phis = Inr phi_values
   \<and> int (length phi_values) = num_phis
   \<and> length phi_values = 10
   \<and> (\<forall>j<10. phi_values ! j = pi_float * of_nat j / of_int num_phis)
   \<and> (\<forall>j<10. \<bar>of_rat (phi_values ! j) - pi * real j / real_of_int num_phis\<bar> \<le> 3 / 10 ^ 16)
   \<and> sorted_wrt (<) phi_values
   \<and> phi_values ! 0 = 0
   \<and> (\<forall>j<9. phi_values ! (j + 1) - phi_values ! j = pi_float / 10)
   \<and> \<bar>of_rat (pi_float / 10) - pi / 10\<bar> \<le> 2 / 10 ^ 17"
proof (intro conjI)
  show "phis = Inr phi_values"
    by (simp add: phis_eq phi_values_eq)
  show "int (length phi_values) = num_phis"
    by (simp add: length_phi_values num_phis_def)
  show "length phi_values = 10"
    by (rule length_phi_values)
  show "\<forall>j<10. phi_values ! j = pi_float * of_nat j / of_int num_phis"
    by (simp add: nth_phi_values step_pi num_phis_def)
  show "\<forall>j<10. \<bar>of_rat (phi_values ! j) - pi * real j / real_of_int num_phis\<bar> \<le> 3 / 10 ^ 16"
    using grid_value_near by (simp add: nth_phi_values num_phis_def)
  show "sorted_wrt (<) phi_values"
    by (rule sorted_phi_values)
  show "phi_values ! 0 = 0"
    by (simp add: nth_phi_values)
  show "\<forall>j<9. phi_values ! (j + 1) - phi_values ! j = pi_float / 10"
    by (simp add: nth_phi_values step_pi algebra_simps)
  show "\<bar>of_rat (pi_float / 10) - pi / 10\<bar> \<le> 2 / 10 ^ 17"
    using grid_step_near by (simp only: step_pi)
qed

theorem phis_grid_witness:
  "(7::nat) < 10 \<and> phi_values ! 7 = pi_float * of_nat 7 / of_int num_phis
   \<and> \<bar>of_rat (phi_values ! 7) - pi * real 7 / real_of_int num_phis\<bar> \<le> 3 / 10 ^ 16
   \<and> phi_values ! (7 + 1) - phi_values ! 7 = pi_float / 10"
proof -
  from phis_grid
  have a: "\<forall>j<10. phi_values ! j = pi_float * of_nat j / of_int num_phis"
    and b: "\<forall>j<9. phi_values ! (j + 1) - phi_values ! j = pi_float / 10"
    and c: "\<forall>j<10. \<bar>of_rat (phi_values ! j) - pi * real j / real_of_int num_phis\<bar> \<le> 3 / 10 ^ 16"
    by blast+
  have "(7::nat) < 10" "(7::nat) < 9" by simp_all
  then show ?thesis
    using a [rule_format, of 7] b [rule_format, of 7] c [rule_format, of 7] by blast
qed

subsection \<open>A run that meets no exception\<close>

lemma for_each_append:
  assumes "\<And>x out. x \<in> set xs \<Longrightarrow> body x out = (out @ g x, None)"
  shows "for_each xs body out = (out @ concat (map g xs), None)"
  using assms by (induction xs arbitrary: out) simp_all

lemma for_each_cong:
  assumes "\<And>x out. x \<in> set xs \<Longrightarrow> body x out = body' x out"
  shows "for_each xs body out = for_each xs body' out"
  using assms by (induction xs arbitrary: out) (simp_all split: prod.splits option.splits)

lemma py_format_row:
  "py_format ''{},{},{},{},{},{}'' [a, b, c, d, e, f] = Inr (join_commas [a, b, c, d, e, f])"
  by simp

lemma emit_row_ok:
  assumes "\<not> isl (sph_harm L m n theta phi)"
  shows "emit_row L n m phi theta out = (out @ [csv_line L n m theta phi], None)"
proof -
  from assms obtain res where r: "sph_harm L m n theta phi = Inr res"
    by (cases "sph_harm L m n theta phi") auto
  show ?thesis
    unfolding emit_row_def r csv_line_def fields_def
    by (simp only: py_format_row sum.case sum.sel Let_def print_def)
qed

lemma loops_ok:
  assumes "succeeds L"
  shows "for_each (range_int 0 (n_max + 1)) (\<lambda>n.
           for_each (range_int (- n) (n + 1)) (\<lambda>m.
             for_each phi_values (\<lambda>phi.
               for_each theta_values (\<lambda>theta. emit_row L n m phi theta)))) out
         = (out @ data_rows L, None)"
proof -
  have inner: "for_each theta_values (\<lambda>theta. emit_row L n m phi theta) out
      = (out @ map (\<lambda>theta. csv_line L n m theta phi) theta_values, None)"
    if "valid n m" "phi \<in> set phi_values" for n m phi out
  proof -
    have "for_each theta_values (\<lambda>theta. emit_row L n m phi theta) out
        = (out @ concat (map (\<lambda>theta. [csv_line L n m theta phi]) theta_values), None)"
      using assms that by (intro for_each_append emit_row_ok) (simp add: succeeds_def)
    then show ?thesis by (simp add: concat_map_singleton)
  qed
  have blk: "for_each phi_values (\<lambda>phi. for_each theta_values (\<lambda>theta. emit_row L n m phi theta)) out
      = (out @ block L n m, None)" if "valid n m" for n m out
    unfolding block_def using that by (intro for_each_append inner)
  have deg: "for_each (range_int (- n) (n + 1)) (\<lambda>m.
        for_each phi_values (\<lambda>phi. for_each theta_values (\<lambda>theta. emit_row L n m phi theta))) out
      = (out @ concat (map (\<lambda>m. block L n m) [- n..n]), None)" if "0 \<le> n" "n \<le> n_max" for n out
  proof -
    have r: "range_int (- n) (n + 1) = [- n..n]" by (simp add: range_int_def)
    show ?thesis
      unfolding r using that by (intro for_each_append blk) (simp add: valid_def)
  qed
  have r: "range_int 0 (n_max + 1) = [0..n_max]" by (simp add: range_int_def)
  show ?thesis
    unfolding r data_rows_def by (intro for_each_append deg) simp_all
qed

lemma main_ok:
  assumes "succeeds L"
  shows "main L = (''n,m,theta,phi,sph_re,sph_im'' # data_rows L, None)"
  unfolding main_def thetas_eq phis_eq
  using loops_ok [OF assms, of "print ''n,m,theta,phi,sph_re,sph_im'' []"]
  by (simp only: sum.case theta_values_eq phi_values_eq print_def append.simps)

subsection \<open>The index tuples of the iteration\<close>

lemma map_pairs_of:
  "map (\<lambda>(x, y). g x y) (pairs_of xs f) = concat (map (\<lambda>x. map (g x) (f x)) xs)"
  by (simp add: pairs_of_def map_concat comp_def)

lemma set_pairs_of: "set (pairs_of xs f) = {(x, y). x \<in> set xs \<and> y \<in> set (f x)}"
  by (auto simp: pairs_of_def)

lemma length_pairs_of: "length (pairs_of xs f) = sum_list (map (\<lambda>x. length (f x)) xs)"
  by (simp add: pairs_of_def length_concat comp_def)

lemma sorted_pairs_of:
  fixes xs :: "'a::linorder list" and f :: "'a \<Rightarrow> 'b::linorder list"
  assumes "sorted_wrt (<) xs" "\<And>x. x \<in> set xs \<Longrightarrow> sorted_wrt (<) (f x)"
  shows "sorted_wrt (<) (pairs_of xs f)"
  using assms
proof (induction xs)
  case Nil
  then show ?case by (simp add: pairs_of_def)
next
  case (Cons x xs)
  have tl: "sorted_wrt (<) (pairs_of xs f)" using Cons by simp
  have hd: "sorted_wrt (<) (map (Pair x) (f x))"
    using Cons.prems(2) [of x] by (simp add: sorted_wrt_map)
  have cross: "\<forall>p \<in> set (map (Pair x) (f x)). \<forall>q \<in> set (pairs_of xs f). p < q"
    using Cons.prems(1) by (auto simp: set_pairs_of)
  have "pairs_of (x # xs) f = map (Pair x) (f x) @ pairs_of xs f"
    by (simp add: pairs_of_def)
  then show ?case using tl hd cross by (simp add: sorted_wrt_append)
qed

lemma sorted_index_space: "sorted_wrt (<) index_space"
  unfolding index_space_def
  by (intro sorted_pairs_of sorted_wrt_upto sorted_wrt_upt) 

lemma in_pairs_of: "(x, y) \<in> set (pairs_of xs f) \<longleftrightarrow> x \<in> set xs \<and> y \<in> set (f x)"
  by (simp add: set_pairs_of)

lemma in_index_space:
  "(n, m, j, k) \<in> set index_space
     \<longleftrightarrow> valid n m \<and> j < length phi_values \<and> k < length theta_values"
  unfolding index_space_def in_pairs_of valid_def by simp

lemma set_index_space:
  "set index_space = {(n, m, j, k). valid n m \<and> j < length phi_values \<and> k < length theta_values}"
proof (rule set_eqI)
  fix x :: "int \<times> int \<times> nat \<times> nat"
  obtain n m j k where x: "x = (n, m, j, k)" by (cases x) auto
  show "x \<in> set index_space
      \<longleftrightarrow> x \<in> {(n, m, j, k). valid n m \<and> j < length phi_values \<and> k < length theta_values}"
    unfolding x by (simp add: in_index_space)
qed

lemma map_pairs_of':
  "map h (pairs_of xs f) = concat (map (\<lambda>x. map (\<lambda>y. h (x, y)) (f x)) xs)"
  by (simp add: pairs_of_def map_concat comp_def)

lemma map_nth_eq: "map g xs = map (\<lambda>i. g (xs ! i)) [0..<length xs]"
  by (rule nth_equalityI) simp_all

lemma block_index:
  "block L n m = map (\<lambda>jk. row_at L (n, m, jk))
     (pairs_of [0..<length phi_values] (\<lambda>j. [0..<length theta_values]))"
proof -
  have th: "map (\<lambda>k. csv_line L n m (theta_values ! k) phi) [0..<length theta_values]
      = map (\<lambda>theta. csv_line L n m theta phi) theta_values" for phi
    by (rule map_nth_eq [of "\<lambda>theta. csv_line L n m theta phi" theta_values, symmetric])
  have ph: "map (\<lambda>j. map (\<lambda>theta. csv_line L n m theta (phi_values ! j)) theta_values)
        [0..<length phi_values]
      = map (\<lambda>phi. map (\<lambda>theta. csv_line L n m theta phi) theta_values) phi_values"
    by (rule map_nth_eq [of "\<lambda>phi. map (\<lambda>theta. csv_line L n m theta phi) theta_values"
          phi_values, symmetric])
  have "map (\<lambda>jk. row_at L (n, m, jk))
        (pairs_of [0..<length phi_values] (\<lambda>j. [0..<length theta_values]))
      = concat (map (\<lambda>j. map (\<lambda>k. csv_line L n m (theta_values ! k) (phi_values ! j))
          [0..<length theta_values]) [0..<length phi_values])"
    by (simp only: map_pairs_of' row_at_def prod.case)
  also have "\<dots> = concat (map (\<lambda>j. map (\<lambda>theta. csv_line L n m theta (phi_values ! j))
      theta_values) [0..<length phi_values])"
    by (simp only: th)
  also have "\<dots> = concat (map (\<lambda>phi. map (\<lambda>theta. csv_line L n m theta phi) theta_values)
      phi_values)"
    by (simp only: ph)
  finally show ?thesis by (simp only: block_def)
qed

lemma data_rows_index: "data_rows L = map (row_at L) index_space"
proof -
  have deg: "map (\<lambda>y. row_at L (n, y))
        (pairs_of [- n..n] (\<lambda>m. pairs_of [0..<length phi_values] (\<lambda>j. [0..<length theta_values])))
      = concat (map (\<lambda>m. block L n m) [- n..n])" for n
    by (subst map_pairs_of') (simp only: block_index [symmetric])
  have "map (row_at L) index_space
      = concat (map (\<lambda>n. map (\<lambda>y. row_at L (n, y))
          (pairs_of [- n..n] (\<lambda>m. pairs_of [0..<length phi_values] (\<lambda>j. [0..<length theta_values]))))
          [0..n_max])"
    unfolding index_space_def by (subst map_pairs_of') (rule refl)
  also have "\<dots> = data_rows L"
    by (simp only: deg data_rows_def)
  finally show ?thesis by (rule sym)
qed

lemma length_index_space: "length index_space = 24200"
proof -
  have inner: "length (pairs_of [0..<length phi_values] (\<lambda>j. [0..<length theta_values])) = 200"
    by (simp add: length_pairs_of sum_list_triv length_theta_values length_phi_values)
  have mid: "length (pairs_of [- n..n] (\<lambda>m.
      pairs_of [0..<length phi_values] (\<lambda>j. [0..<length theta_values]))) = nat (2 * n + 1) * 200" for n
    by (subst length_pairs_of) (simp add: inner sum_list_triv)
  have u: "[0..10] = [0, 1, 2, 3, 4, 5, 6, 7, 8, 9, 10 :: int]"
    by (simp add: upto_rec1)
  have "length index_space = sum_list (map (\<lambda>n. nat (2 * n + 1) * 200) [0..n_max])"
    unfolding index_space_def by (subst length_pairs_of) (simp only: mid)
  also have "\<dots> = 24200"
    unfolding n_max_def u by simp
  finally show ?thesis .
qed

lemma distinct_index_space: "distinct index_space"
  using sorted_index_space strict_sorted_iff by blast

lemma length_nm_pairs: "length nm_pairs = 121"
proof -
  have u: "[0..10] = [0, 1, 2, 3, 4, 5, 6, 7, 8, 9, 10 :: int]"
    by (simp add: upto_rec1)
  show ?thesis
    unfolding nm_pairs_def length_pairs_of n_max_def u by simp
qed

lemma distinct_nm_pairs: "distinct nm_pairs"
proof -
  have "sorted_wrt (<) nm_pairs"
    unfolding nm_pairs_def by (intro sorted_pairs_of sorted_wrt_upto)
  then show ?thesis using strict_sorted_iff by blast
qed

lemma set_nm_pairs: "set nm_pairs = {(n, m). valid n m}"
  by (auto simp: nm_pairs_def set_pairs_of valid_def)

lemma succeeds_sample: "succeeds sample_library"
  by (simp add: succeeds_def sample_library_def)

lemma fst_main: "succeeds L \<Longrightarrow> fst (main L) = ''n,m,theta,phi,sph_re,sph_im'' # map (row_at L) index_space"
  by (simp add: main_ok data_rows_index)

lemma snd_main: "succeeds L \<Longrightarrow> snd (main L) = None"
  by (simp add: main_ok)

lemma set_index_space': "set index_space = {(n, m, j, k). valid n m \<and> j < 10 \<and> k < 20}"
  by (simp only: set_index_space length_phi_values length_theta_values)

lemma lex_less_iff: "lex_less a b \<longleftrightarrow> a < b"
  by (cases a, cases b) (auto simp: lex_less_def)

subsection \<open>The number of rows\<close>

text \<open>
  Claim C1. With \<open>num_phis = 10\<close> and \<open>n_max = 10\<close>, a run in which every evaluation
  returns writes the header and then exactly 24200 data rows and ends normally. The rows
  are the rows of the index tuples \<open>(n, m, j, k)\<close> with \<open>0 \<le> n \<le> 10\<close>, \<open>- n \<le> m \<le> n\<close>,
  \<open>j < 10\<close> and \<open>k < 20\<close>, each tuple once.
\<close>

theorem row_count:
  assumes "succeeds L"
  shows "snd (main L) = None
    \<and> hd (fst (main L)) = ''n,m,theta,phi,sph_re,sph_im''
    \<and> length (tl (fst (main L))) = 24200
    \<and> length (tl (fst (main L))) = length nm_pairs * (length phi_values * length theta_values)
    \<and> length nm_pairs = 121 \<and> length phi_values * length theta_values = 200
    \<and> tl (fst (main L)) = map (row_at L) index_space
    \<and> distinct index_space
    \<and> set index_space = {(n, m, j, k). valid n m \<and> j < 10 \<and> k < 20}"
  using assms
  by (simp add: fst_main snd_main length_index_space distinct_index_space set_index_space'
      length_nm_pairs length_phi_values length_theta_values)

theorem row_count_witness:
  "succeeds sample_library
    \<and> snd (main sample_library) = None
    \<and> hd (fst (main sample_library)) = ''n,m,theta,phi,sph_re,sph_im''
    \<and> length (tl (fst (main sample_library))) = 24200"
  using row_count [OF succeeds_sample] succeeds_sample by blast

subsection \<open>The order of the rows\<close>

text \<open>
  Claim C2. The data rows come in the lexicographic order of \<open>(n, m, j, k)\<close>, each key
  ascending: \<open>n\<close> from 0 to \<open>n_max\<close>, then \<open>m\<close> from \<open>- n\<close> to \<open>n\<close>, then the position
  \<open>j\<close> of \<open>phi\<close> in its grid, then the position \<open>k\<close> of \<open>theta\<close> in its grid. Both grids
  ascend, so the angles ascend with their positions.
\<close>

theorem row_order:
  assumes "succeeds L"
  shows "tl (fst (main L)) = map (row_at L) index_space
    \<and> sorted_wrt lex_less index_space
    \<and> set index_space = {(n, m, j, k). valid n m \<and> j < 10 \<and> k < 20}
    \<and> sorted_wrt (<) phi_values \<and> sorted_wrt (<) theta_values"
proof -
  have "sorted_wrt lex_less index_space"
    using sorted_index_space by (simp add: lex_less_iff [abs_def])
  then show ?thesis
    using assms
    by (simp add: fst_main set_index_space' sorted_phi_values sorted_theta_values)
qed

theorem row_order_witness:
  "succeeds sample_library
    \<and> tl (fst (main sample_library)) = map (row_at sample_library) index_space
    \<and> sorted_wrt lex_less index_space"
  using row_order [OF succeeds_sample] succeeds_sample by blast

subsection \<open>The content of a row\<close>

lemma row_at_index:
  assumes "succeeds L" "i < length index_space" "index_space ! i = (n, m, j, k)"
  shows "\<exists>res. sph_harm L m n (theta_values ! k) (phi_values ! j) = Inr res
    \<and> fst (main L) ! (i + 1) =
        join_commas [str_int n, str_int m, str_float L (theta_values ! k),
          str_float L (phi_values ! j), str_float64 L (real_part res),
          str_float64 L (imag_part res)]"
proof -
  have "(n, m, j, k) \<in> set index_space"
    using assms(2,3) by (metis nth_mem)
  then have v: "valid n m" "j < length phi_values" "k < length theta_values"
    by (simp_all add: in_index_space)
  then have "\<not> isl (sph_harm L m n (theta_values ! k) (phi_values ! j))"
    using assms(1) by (simp add: succeeds_def)
  then obtain res where r: "sph_harm L m n (theta_values ! k) (phi_values ! j) = Inr res"
    by (cases "sph_harm L m n (theta_values ! k) (phi_values ! j)") auto
  have "fst (main L) ! (i + 1) = row_at L (index_space ! i)"
    using assms(1,2) by (simp add: fst_main)
  also have "\<dots> = join_commas [str_int n, str_int m, str_float L (theta_values ! k),
          str_float L (phi_values ! j), str_float64 L (real_part res),
          str_float64 L (imag_part res)]"
    by (simp add: assms(3) row_at_def csv_line_def fields_def r)
  finally show ?thesis using r by blast
qed

text \<open>
  Claim C3. For each tuple of the iteration, degree \<open>n\<close>, order \<open>m\<close>, \<open>phi\<close> at position
  \<open>j\<close> and \<open>theta\<close> at position \<open>k\<close> of their grids, the run calls the special function
  with the arguments in the order \<open>(m, n, theta, phi)\<close>, and the row of the tuple is made
  of \<open>n\<close>, \<open>m\<close>, \<open>theta\<close>, \<open>phi\<close> and the real and imaginary parts of the value that this
  call returns.
\<close>

theorem row_content:
  assumes "succeeds L" "valid n m" "j < 10" "k < 20"
  shows "\<exists>i res. i < 24200 \<and> index_space ! i = (n, m, j, k)
    \<and> sph_harm L m n (theta_values ! k) (phi_values ! j) = Inr res
    \<and> fst (main L) ! (i + 1) =
        join_commas [str_int n, str_int m, str_float L (theta_values ! k),
          str_float L (phi_values ! j), str_float64 L (real_part res),
          str_float64 L (imag_part res)]"
proof -
  have "(n, m, j, k) \<in> set index_space"
    using assms(2-4) by (simp add: in_index_space length_phi_values length_theta_values)
  then obtain i where i: "i < length index_space" "index_space ! i = (n, m, j, k)"
    by (auto simp: in_set_conv_nth)
  from row_at_index [OF assms(1) i] i show ?thesis
    by (auto simp: length_index_space)
qed

theorem row_content_witness:
  "succeeds sample_library \<and> valid 3 (- 2) \<and> (4::nat) < 10 \<and> (7::nat) < 20
    \<and> (\<exists>i res. i < 24200 \<and> index_space ! i = (3, - 2, 4, 7)
      \<and> sph_harm sample_library (- 2) 3 (theta_values ! 7) (phi_values ! 4) = Inr res
      \<and> fst (main sample_library) ! (i + 1) =
          join_commas [str_int 3, str_int (- 2), str_float sample_library (theta_values ! 7),
            str_float sample_library (phi_values ! 4), str_float64 sample_library (real_part res),
            str_float64 sample_library (imag_part res)])"
proof -
  have v: "valid 3 (- 2)" by (simp add: valid_def n_max_def)
  have j: "(4::nat) < 10" and k: "(7::nat) < 20" by simp_all
  show ?thesis
    using row_content [OF succeeds_sample v j k] succeeds_sample v j k by blast
qed

subsection \<open>The same angles for every degree and order\<close>

lemma concat_map_pairs_of:
  "concat (map (\<lambda>(x, y). g x y) (pairs_of xs f)) = concat (map (\<lambda>x. concat (map (g x) (f x))) xs)"
  by (induction xs) (simp_all add: pairs_of_def comp_def)

lemma block_product:
  "block L n m = map (\<lambda>(phi, theta). csv_line L n m theta phi) (List.product phi_values theta_values)"
  by (simp add: block_def product_concat_map map_concat comp_def)

lemma data_rows_blocks:
  "data_rows L = concat (map (\<lambda>(n, m). map (\<lambda>(phi, theta). csv_line L n m theta phi)
      (List.product phi_values theta_values)) nm_pairs)"
  unfolding nm_pairs_def concat_map_pairs_of data_rows_def block_product ..

text \<open>
  Claim C10. The grids are built before the loops and the loops only read them: the data
  rows are, for each of the 121 pairs \<open>(n, m)\<close> in turn, the rows of one and the same
  list of 200 pairs \<open>(phi, theta)\<close>, in one and the same order.
\<close>

theorem same_angles:
  assumes "succeeds L"
  shows "tl (fst (main L)) =
      concat (map (\<lambda>(n, m). map (\<lambda>(phi, theta). csv_line L n m theta phi)
        (List.product phi_values theta_values)) nm_pairs)
    \<and> length nm_pairs = 121 \<and> distinct nm_pairs \<and> set nm_pairs = {(n, m). valid n m}
    \<and> length (List.product phi_values theta_values) = 200"
  using assms
  by (simp add: main_ok data_rows_blocks length_nm_pairs distinct_nm_pairs set_nm_pairs
      length_phi_values length_theta_values)

theorem same_angles_witness:
  "succeeds sample_library
    \<and> tl (fst (main sample_library)) =
      concat (map (\<lambda>(n, m). map (\<lambda>(phi, theta). csv_line sample_library n m theta phi)
        (List.product phi_values theta_values)) nm_pairs)
    \<and> length nm_pairs = 121"
  using same_angles [OF succeeds_sample] succeeds_sample by blast

subsection \<open>What the output depends on\<close>

lemma main_cong:
  assumes "\<And>n m theta phi out. valid n m \<Longrightarrow> theta \<in> set theta_values \<Longrightarrow> phi \<in> set phi_values
    \<Longrightarrow> emit_row L1 n m phi theta out = emit_row L2 n m phi theta out"
  shows "main L1 = main L2"
proof -
  have "for_each (range_int 0 (n_max + 1)) (\<lambda>n.
           for_each (range_int (- n) (n + 1)) (\<lambda>m.
             for_each phi_values (\<lambda>phi.
               for_each theta_values (\<lambda>theta. emit_row L1 n m phi theta)))) out
      = for_each (range_int 0 (n_max + 1)) (\<lambda>n.
           for_each (range_int (- n) (n + 1)) (\<lambda>m.
             for_each phi_values (\<lambda>phi.
               for_each theta_values (\<lambda>theta. emit_row L2 n m phi theta)))) out" for out
    by (intro for_each_cong assms) (simp_all add: valid_def range_int_def)
  then show ?thesis
    unfolding main_def thetas_eq phis_eq
    by (simp only: sum.case theta_values_eq [symmetric] phi_values_eq [symmetric])
qed

text \<open>
  Claim C8. The script reads no input, so two runs differ at most in what the library
  does. When the library gives the same results on the calls of the iteration and the
  same renderings in both runs, that is when its functions are pure, both runs write the
  same lines and end the same way.
\<close>

theorem deterministic:
  assumes "agree L1 L2"
  shows "main L1 = main L2"
proof (rule main_cong)
  fix n m theta phi out
  assume "valid n m" "theta \<in> set theta_values" "phi \<in> set phi_values"
  with assms have "sph_harm L1 m n theta phi = sph_harm L2 m n theta phi"
    "str_float L1 theta = str_float L2 theta" "str_float L1 phi = str_float L2 phi"
    "str_float64 L1 = str_float64 L2"
    by (simp_all add: agree_def)
  then show "emit_row L1 n m phi theta out = emit_row L2 n m phi theta out"
    by (simp only: emit_row_def)
qed

theorem deterministic_witness:
  "agree sample_library restricted_sample
    \<and> sph_harm sample_library 1 0 0 0 \<noteq> sph_harm restricted_sample 1 0 0 0
    \<and> main sample_library = main restricted_sample"
proof -
  have a: "agree sample_library restricted_sample"
    by (simp add: agree_def restricted_sample_def)
  have "sph_harm sample_library 1 0 0 0 \<noteq> sph_harm restricted_sample 1 0 0 0"
    by (simp add: restricted_sample_def sample_library_def valid_def)
  then show ?thesis
    using deterministic [OF a] a by blast
qed

text \<open>
  Claim C9. Every call of the special function has \<open>0 \<le> n \<le> 10\<close> and \<open>- n \<le> m \<le> n\<close>:
  whatever the function does outside these arguments, an exception included, nothing of
  a run changes, so the branch for a wrong degree or order is never reached.
\<close>

theorem domain_respected:
  "main (L\<lparr>sph_harm := \<lambda>m n theta phi.
      if 0 \<le> n \<and> n \<le> 10 \<and> - n \<le> m \<and> m \<le> n then sph_harm L m n theta phi
      else f m n theta phi\<rparr>) = main L"
  by (rule main_cong) (simp add: emit_row_def valid_def n_max_def split: sum.splits)

subsection \<open>The format of the lines\<close>

lemma digit_char_not_comma:
  assumes "d < 10"
  shows "digit_char d \<noteq> CHR '',''"
proof
  assume c: "digit_char d = CHR '',''"
  have "of_char (digit_char d) = 48 + d"
    using assms by (simp add: digit_char_def)
  moreover have "of_char (CHR '','') = (44::nat)" by simp
  ultimately have "48 + d = 44" using c by simp
  then show False by simp
qed

lemma str_nat_no_comma: "CHR '','' \<notin> set (str_nat n)"
proof (induction n rule: str_nat.induct)
  case (1 n)
  show ?case
  proof (cases "n < 10")
    case True
    then show ?thesis
      using digit_char_not_comma [of n] by (subst str_nat.simps) auto
  next
    case False
    then have "CHR '','' \<notin> set (str_nat (n div 10))" using 1 by simp
    moreover have "digit_char (n mod 10) \<noteq> CHR '',''"
      by (rule digit_char_not_comma) simp
    ultimately show ?thesis
      using False by (subst str_nat.simps) auto
  qed
qed

lemma str_int_no_comma: "CHR '','' \<notin> set (str_int i)"
  by (simp add: str_int_def str_nat_no_comma)

lemma split_commas_plain: "CHR '','' \<notin> set f \<Longrightarrow> split_commas f = [f]"
  by (induction f) auto

lemma split_commas_append:
  "CHR '','' \<notin> set f \<Longrightarrow> split_commas (f @ CHR '','' # rest) = f # split_commas rest"
  by (induction f) auto

lemma split_join:
  "fs \<noteq> [] \<Longrightarrow> (\<And>f. f \<in> set fs \<Longrightarrow> CHR '','' \<notin> set f)
    \<Longrightarrow> split_commas (join_commas fs) = fs"
proof (induction fs rule: join_commas.induct)
  case 1
  then show ?case by simp
next
  case (2 f)
  then show ?case by (simp add: split_commas_plain)
next
  case (3 f g fs)
  then show ?case by (simp add: split_commas_append)
qed

lemma fields_no_comma:
  "comma_free L \<Longrightarrow> f \<in> set (fields L n m theta phi) \<Longrightarrow> CHR '','' \<notin> set f"
  by (auto simp: fields_def comma_free_def Let_def str_int_no_comma)

lemma split_csv_line:
  "comma_free L \<Longrightarrow> split_commas (csv_line L n m theta phi) = fields L n m theta phi"
  unfolding csv_line_def
  by (rule split_join) (simp_all add: fields_def Let_def fields_no_comma [unfolded fields_def Let_def])

lemma comma_free_sample: "comma_free sample_library"
  by (simp add: comma_free_def sample_library_def str_int_no_comma)

text \<open>
  Claim C6. The first line is the header \<^verbatim>\<open>n,m,theta,phi,sph_re,sph_im\<close>. Each of the 24200
  lines after it is the six rendered fields \<open>n\<close>, \<open>m\<close>, \<open>theta\<close>, \<open>phi\<close>, \<open>sph_re\<close>,
  \<open>sph_im\<close> joined by commas, with nothing quoted or escaped: splitting the line at its
  commas gives the six fields back, provided the rendering of a float has no comma in
  it. There is no line after the last data row.
\<close>

theorem csv_format:
  assumes "succeeds L" "comma_free L"
  shows "fst (main L) ! 0 = ''n,m,theta,phi,sph_re,sph_im''
    \<and> split_commas (fst (main L) ! 0) = [''n'', ''m'', ''theta'', ''phi'', ''sph_re'', ''sph_im'']
    \<and> length (fst (main L)) = 1 + 24200
    \<and> (\<forall>i<24200. \<exists>n m j k. index_space ! i = (n, m, j, k)
          \<and> fst (main L) ! (i + 1) = join_commas (fields L n m (theta_values ! k) (phi_values ! j))
          \<and> split_commas (fst (main L) ! (i + 1)) = fields L n m (theta_values ! k) (phi_values ! j)
          \<and> length (fields L n m (theta_values ! k) (phi_values ! j)) = 6)"
proof -
  have rows: "\<exists>n m j k. index_space ! i = (n, m, j, k)
      \<and> fst (main L) ! (i + 1) = join_commas (fields L n m (theta_values ! k) (phi_values ! j))
      \<and> split_commas (fst (main L) ! (i + 1)) = fields L n m (theta_values ! k) (phi_values ! j)
      \<and> length (fields L n m (theta_values ! k) (phi_values ! j)) = 6" if "i < 24200" for i
  proof -
    obtain n m j k where t: "index_space ! i = (n, m, j, k)"
      by (cases "index_space ! i") auto
    have "fst (main L) ! (i + 1) = row_at L (index_space ! i)"
      using assms(1) that by (simp add: fst_main length_index_space)
    then have r: "fst (main L) ! (i + 1) = csv_line L n m (theta_values ! k) (phi_values ! j)"
      by (simp add: t row_at_def)
    have "length (fields L n m (theta_values ! k) (phi_values ! j)) = 6"
      by (simp add: fields_def Let_def)
    then show ?thesis
      using t r split_csv_line [OF assms(2)] by (auto simp: csv_line_def)
  qed
  have "fst (main L) ! 0 = ''n,m,theta,phi,sph_re,sph_im''"
    using assms(1) by (simp add: fst_main)
  moreover have "split_commas ''n,m,theta,phi,sph_re,sph_im''
      = [''n'', ''m'', ''theta'', ''phi'', ''sph_re'', ''sph_im'']"
    by simp
  moreover have "length (fst (main L)) = 1 + 24200"
    using assms(1) by (simp add: fst_main length_index_space)
  ultimately show ?thesis using rows by simp
qed

theorem csv_format_witness:
  "succeeds sample_library \<and> comma_free sample_library
    \<and> fst (main sample_library) ! 0 = ''n,m,theta,phi,sph_re,sph_im''
    \<and> length (fst (main sample_library)) = 1 + 24200
    \<and> (0::nat) < 24200
    \<and> (\<exists>n m j k. index_space ! 0 = (n, m, j, k)
          \<and> split_commas (fst (main sample_library) ! (0 + 1))
              = fields sample_library n m (theta_values ! k) (phi_values ! j)
          \<and> length (fields sample_library n m (theta_values ! k) (phi_values ! j)) = 6)"
proof -
  note t = csv_format [OF succeeds_sample comma_free_sample]
  from t have "\<forall>i<24200. \<exists>n m j k. index_space ! i = (n, m, j, k)
      \<and> fst (main sample_library) ! (i + 1)
          = join_commas (fields sample_library n m (theta_values ! k) (phi_values ! j))
      \<and> split_commas (fst (main sample_library) ! (i + 1))
          = fields sample_library n m (theta_values ! k) (phi_values ! j)
      \<and> length (fields sample_library n m (theta_values ! k) (phi_values ! j)) = 6"
    by blast
  then have "\<exists>n m j k. index_space ! 0 = (n, m, j, k)
      \<and> split_commas (fst (main sample_library) ! (0 + 1))
          = fields sample_library n m (theta_values ! k) (phi_values ! j)
      \<and> length (fields sample_library n m (theta_values ! k) (phi_values ! j)) = 6"
    by (metis zero_less_numeral)
  then show ?thesis
    using t succeeds_sample comma_free_sample by simp
qed

subsection \<open>The rows of degree 0\<close>

lemma legendre_0_0: "legendre 0 0 x = 1"
  by (simp add: legendre_def)

lemma legendre_1_0: "legendre 1 0 x = x"
  by (simp add: legendre_def)

lemma legendre_1_1: "legendre 1 1 x = - sqrt (1 - x\<^sup>2)"
  by (simp add: legendre_def)

lemma legendre_2_0: "legendre 2 0 x = (3 * x\<^sup>2 - 1) / 2"
  by (simp add: legendre_def atMost_Suc choose_two field_simps)

lemma sph_harm_spec_0_0: "sph_harm_spec 0 0 theta phi = of_real (1 / (2 * sqrt pi))"
  by (simp add: sph_harm_spec_def assoc_legendre_def legendre_0_0 real_sqrt_divide
      real_sqrt_mult)

lemma y00_decimal: "\<bar>1 / (2 * sqrt pi) - 28209479177387814 / 10 ^ 17\<bar> \<le> 1 / 10 ^ 17"
proof -
  let ?lo = "28209479177387813 / 10 ^ 17 :: real"
  let ?hi = "28209479177387815 / 10 ^ 17 :: real"
  have "(1 / (2 * ?hi))\<^sup>2 \<le> 314159265358979323 / 10 ^ 17"
    by (simp add: power2_eq_square)
  then have "(1 / (2 * ?hi))\<^sup>2 \<le> pi" using pi_bounds(1) by linarith
  then have a: "1 / (2 * ?hi) \<le> sqrt pi" by (rule real_le_rsqrt)
  have "314159265358979324 / 10 ^ 17 \<le> (1 / (2 * ?lo))\<^sup>2"
    by (simp add: power2_eq_square)
  then have "pi \<le> (1 / (2 * ?lo))\<^sup>2" using pi_bounds(2) by linarith
  then have b: "sqrt pi \<le> 1 / (2 * ?lo)" by (intro real_le_lsqrt) simp_all
  have p: "0 < sqrt pi" by simp
  define y where "y = 1 / (2 * sqrt pi)"
  have "y \<le> ?hi"
    unfolding y_def using a p by (simp add: field_simps)
  then have u: "y - 28209479177387814 / 10 ^ 17 \<le> 1 / 10 ^ 17" by simp
  have "?lo \<le> y"
    unfolding y_def using b p by (simp add: field_simps)
  then have l: "- (y - 28209479177387814 / 10 ^ 17) \<le> 1 / 10 ^ 17" by simp
  from u l have "\<bar>y - 28209479177387814 / 10 ^ 17\<bar> \<le> 1 / 10 ^ 17"
    by (rule abs_leI)
  then show ?thesis by (simp only: y_def)
qed

lemma pairs_of_Cons: "pairs_of (x # xs) f = map (Pair x) (f x) @ pairs_of xs f"
  by (simp add: pairs_of_def)

lemma pairs_of_snoc: "pairs_of (xs @ [x]) f = pairs_of xs f @ map (Pair x) (f x)"
  by (simp add: pairs_of_def)

lemma length_pairs_of_upt: "length (pairs_of [0..<a] (\<lambda>j. [0..<b])) = a * b"
  by (simp add: length_pairs_of sum_list_triv)

lemma nth_pairs_of_upt:
  "i < a * b \<Longrightarrow> pairs_of [0..<a] (\<lambda>j. [0..<b]) ! i = (i div b, i mod b)"
proof (induction a)
  case 0
  then show ?case by simp
next
  case (Suc a)
  have p: "pairs_of [0..<Suc a] (\<lambda>j. [0..<b])
      = pairs_of [0..<a] (\<lambda>j. [0..<b]) @ map (Pair a) [0..<b]"
    by (simp add: pairs_of_snoc)
  show ?case
  proof (cases "i < a * b")
    case True
    then show ?thesis
      unfolding p by (simp add: nth_append length_pairs_of_upt Suc.IH)
  next
    case False
    then have ge: "a * b \<le> i" by simp
    have lt: "i - a * b < b" using Suc.prems ge by simp
    have "b \<noteq> 0" using lt by auto
    have d: "i div b = a"
      using ge Suc.prems by (metis (no_types) Suc.prems div_nat_eqI ge mult.commute mult_Suc)
    have "i mod b = i - a * b"
      using d by (metis minus_mult_div_eq_mod mult.commute)
    then show ?thesis
      unfolding p using False lt d by (simp add: nth_append length_pairs_of_upt)
  qed
qed

lemma first_block_index:
  assumes "i < 200"
  shows "index_space ! i = (0, 0, i div 20, i mod 20)"
proof -
  let ?P = "pairs_of [0..<length phi_values] (\<lambda>j. [0..<length theta_values])"
  have u: "[0..n_max] = 0 # [1..n_max]"
    by (simp add: n_max_def upto_rec1)
  have z: "[- 0..0] = [0::int]" by (simp add: upto_rec1)
  have e: "index_space = map (Pair 0) (map (Pair 0) ?P)
      @ pairs_of [1..n_max] (\<lambda>n. pairs_of [- n..n] (\<lambda>m. ?P))"
    unfolding index_space_def u pairs_of_Cons z by (simp add: pairs_of_def)
  have len: "length ?P = 200"
    by (simp add: length_pairs_of_upt length_phi_values length_theta_values)
  have nth: "?P ! i = (i div 20, i mod 20)"
    using assms nth_pairs_of_upt [of i 10 20]
    by (simp add: length_phi_values length_theta_values)
  have "index_space ! i = map (Pair 0) (map (Pair 0) ?P) ! i"
    using assms by (subst e) (simp add: nth_append len)
  also have "\<dots> = (0, 0, ?P ! i)"
    using assms by (simp add: len)
  finally show ?thesis by (simp only: nth)
qed

lemma succeeds_scipy_spec: "succeeds (scipy_spec sf sr)"
  by (simp add: succeeds_def scipy_spec_def)

text \<open>
  Claim C7. The first data row is the row of \<open>n = 0\<close>, \<open>m = 0\<close>, \<open>phi = phis[0] = 0\<close> and
  \<open>theta = thetas[0] = 0\<close>, and the first 200 data rows are the rows of \<open>n = 0\<close>,
  \<open>m = 0\<close>. With the special function of the specification, the real part in each of
  them is \<open>1 / (2 * sqrt pi)\<close>, which is \<open>0.28209479177387814\<close> within \<open>10 ^ - 17\<close>, and the
  imaginary part is 0.
\<close>

theorem first_rows:
  "index_space ! 0 = (0, 0, 0, 0) \<and> theta_values ! 0 = 0 \<and> phi_values ! 0 = 0
   \<and> (\<forall>i<200. \<exists>j k res. index_space ! i = (0, 0, j, k)
          \<and> sph_harm (scipy_spec sf sr) 0 0 (theta_values ! k) (phi_values ! j) = Inr res
          \<and> real_part res = 1 / (2 * sqrt pi) \<and> imag_part res = 0
          \<and> fst (main (scipy_spec sf sr)) ! (i + 1) =
              join_commas [str_int 0, str_int 0, sf (theta_values ! k), sf (phi_values ! j),
                sr (real_part res), sr (imag_part res)])
   \<and> \<bar>1 / (2 * sqrt pi) - 28209479177387814 / 10 ^ 17\<bar> \<le> 1 / 10 ^ 17"
proof -
  have rows: "\<exists>j k res. index_space ! i = (0, 0, j, k)
      \<and> sph_harm (scipy_spec sf sr) 0 0 (theta_values ! k) (phi_values ! j) = Inr res
      \<and> real_part res = 1 / (2 * sqrt pi) \<and> imag_part res = 0
      \<and> fst (main (scipy_spec sf sr)) ! (i + 1) =
          join_commas [str_int 0, str_int 0, sf (theta_values ! k), sf (phi_values ! j),
            sr (real_part res), sr (imag_part res)]" if "i < 200" for i
  proof -
    have t: "index_space ! i = (0, 0, i div 20, i mod 20)"
      using that by (rule first_block_index)
    have l: "i < length index_space" using that by (simp add: length_index_space)
    from row_at_index [OF succeeds_scipy_spec l t]
    obtain res where r:
      "sph_harm (scipy_spec sf sr) 0 0 (theta_values ! (i mod 20)) (phi_values ! (i div 20)) = Inr res"
      "fst (main (scipy_spec sf sr)) ! (i + 1) =
        join_commas [str_int 0, str_int 0, str_float (scipy_spec sf sr) (theta_values ! (i mod 20)),
          str_float (scipy_spec sf sr) (phi_values ! (i div 20)),
          str_float64 (scipy_spec sf sr) (real_part res),
          str_float64 (scipy_spec sf sr) (imag_part res)]"
      by blast
    from r(1) have "real_part res = 1 / (2 * sqrt pi)" "imag_part res = 0"
      by (auto simp: scipy_spec_def sph_harm_spec_0_0)
    with t r show ?thesis by (auto simp: scipy_spec_def)
  qed
  have "index_space ! 0 = (0, 0, 0, 0)"
    using first_block_index [of 0] by simp
  moreover have "theta_values ! 0 = 0" "phi_values ! 0 = 0"
    by (simp_all add: nth_theta_values nth_phi_values)
  ultimately show ?thesis
    using rows y00_decimal by blast
qed

theorem first_rows_witness:
  "(0::nat) < 200
   \<and> (\<exists>j k res. index_space ! 0 = (0, 0, j, k)
          \<and> sph_harm (scipy_spec (\<lambda>x. []) (\<lambda>x. [])) 0 0 (theta_values ! k) (phi_values ! j) = Inr res
          \<and> real_part res = 1 / (2 * sqrt pi) \<and> imag_part res = 0)"
proof -
  from first_rows [of "\<lambda>x. []" "\<lambda>x. []"]
  have "\<forall>i<200. \<exists>j k res. index_space ! i = (0, 0, j, k)
      \<and> sph_harm (scipy_spec (\<lambda>x. []) (\<lambda>x. [])) 0 0 (theta_values ! k) (phi_values ! j) = Inr res
      \<and> real_part res = 1 / (2 * sqrt pi) \<and> imag_part res = 0
      \<and> fst (main (scipy_spec (\<lambda>x. []) (\<lambda>x. []))) ! (i + 1) =
          join_commas [str_int 0, str_int 0, [], [], [], []]"
    by blast
  then have "\<exists>j k res. index_space ! 0 = (0, 0, j, k)
      \<and> sph_harm (scipy_spec (\<lambda>x. []) (\<lambda>x. [])) 0 0 (theta_values ! k) (phi_values ! j) = Inr res
      \<and> real_part res = 1 / (2 * sqrt pi) \<and> imag_part res = 0"
    by (metis zero_less_numeral)
  then show ?thesis by simp
qed

end
